theory Spec2Isabelle
  imports Main
begin

section \<open>Strings\<close>

text \<open>
  A JavaScript string is a sequence of UTF-16 code units. A code unit is modelled
  as a natural number and a string as a list of code units, so that characters
  beyond Latin-1 (and the values of \<open>\uXXXX\<close> escapes) are ordinary elements.
  String literals of the source are written \<open>js ''...''\<close>; characters that an
  Isabelle literal cannot hold (newline, backslash) are written by their code.
\<close>

type_synonym uchar = nat
type_synonym jstring = "uchar list"

definition js :: "string \<Rightarrow> jstring" where
  "js s = map of_char s"

text \<open>
  White space as \<open>String.prototype.trim\<close> and the regular expression class
  \<open>\s\<close> read it: the WhiteSpace and LineTerminator code points.
\<close>

definition is_space :: "uchar \<Rightarrow> bool" where
  "is_space c \<longleftrightarrow>
     c = 9 \<or> c = 10 \<or> c = 11 \<or> c = 12 \<or> c = 13 \<or> c = 32 \<or> c = 160 \<or> c = 5760 \<or>
     (8192 \<le> c \<and> c \<le> 8202) \<or> c = 8232 \<or> c = 8233 \<or> c = 8239 \<or> c = 8287 \<or>
     c = 12288 \<or> c = 65279"

definition trim :: "jstring \<Rightarrow> jstring" where
  "trim s = rev (dropWhile is_space (rev (dropWhile is_space s)))"

definition strip_prefix :: "jstring \<Rightarrow> jstring \<Rightarrow> jstring option" where
  "strip_prefix p s = (if take (length p) s = p then Some (drop (length p) s) else None)"

text \<open>\<open>s.replace(/c/g, rep)\<close> for a single code unit \<open>c\<close>.\<close>

definition replaceAll :: "uchar \<Rightarrow> jstring \<Rightarrow> jstring \<Rightarrow> jstring" where
  "replaceAll c rep s = concat (map (\<lambda>x. if x = c then rep else [x]) s)"

text \<open>A falsy string is \<open>undefined\<close> or the empty string.\<close>

definition truthyStr :: "jstring option \<Rightarrow> bool" where
  "truthyStr v = (case v of None \<Rightarrow> False | Some s \<Rightarrow> s \<noteq> [])"

section \<open>JSON.parse\<close>

text \<open>
  The built-in \<open>JSON.parse\<close>, as a lexer and a stack parser over the tokens.
  A number keeps its lexeme: sign, integer digits, fraction digits and exponent.
\<close>

datatype numlit = NumLit bool jstring jstring "(bool \<times> jstring) option"

datatype json =
    JNull
  | JBool bool
  | JNum numlit
  | JStr jstring
  | JArr "json list"
  | JObj "(jstring \<times> json) list"

datatype token =
    LBrace | RBrace | LBracket | RBracket | Colon | Comma
  | TStr jstring | TNum numlit | TTrue | TFalse | TNull

definition is_json_ws :: "uchar \<Rightarrow> bool" where
  "is_json_ws c \<longleftrightarrow> c = 32 \<or> c = 9 \<or> c = 10 \<or> c = 13"

definition is_digit :: "uchar \<Rightarrow> bool" where
  "is_digit c \<longleftrightarrow> 48 \<le> c \<and> c \<le> 57"

definition hexval :: "uchar \<Rightarrow> nat option" where
  "hexval c =
     (if 48 \<le> c \<and> c \<le> 57 then Some (c - 48)
      else if 97 \<le> c \<and> c \<le> 102 then Some (c - 87)
      else if 65 \<le> c \<and> c \<le> 70 then Some (c - 55)
      else None)"

text \<open>The character after a backslash: \<open>" \ / b f n r t\<close>.\<close>

definition unescape :: "uchar \<Rightarrow> uchar option" where
  "unescape e =
     (if e = 34 then Some 34 else if e = 92 then Some 92 else if e = 47 then Some 47
      else if e = 98 then Some 8 else if e = 102 then Some 12 else if e = 110 then Some 10
      else if e = 114 then Some 13 else if e = 116 then Some 9 else None)"

definition unicodeEscape :: "jstring \<Rightarrow> (uchar \<times> jstring) option" where
  "unicodeEscape r =
     (case r of
        h1 # h2 # h3 # h4 # r' \<Rightarrow>
          (case hexval h1 of None \<Rightarrow> None | Some a \<Rightarrow>
           case hexval h2 of None \<Rightarrow> None | Some b \<Rightarrow>
           case hexval h3 of None \<Rightarrow> None | Some c \<Rightarrow>
           case hexval h4 of None \<Rightarrow> None | Some d \<Rightarrow>
             Some (4096 * a + 256 * b + 16 * c + d, r'))
      | _ \<Rightarrow> None)"

text \<open>
  A string token, read after its opening quote: the decoded value and the text
  after the closing quote. A raw control character (below 0x20) is a syntax error.
\<close>

fun lex_string :: "jstring \<Rightarrow> (jstring \<times> jstring) option" where
  "lex_string [] = None"
| "lex_string (c # cs) =
     (if c = 34 then Some ([], cs)
      else if c = 92 then
        (case cs of
           [] \<Rightarrow> None
         | e # r \<Rightarrow>
             if e = 117 then
               (case r of
                  h1 # h2 # h3 # h4 # r' \<Rightarrow>
                    (case unicodeEscape r of
                       None \<Rightarrow> None
                     | Some (u, _) \<Rightarrow> map_option (\<lambda>(s, t). (u # s, t)) (lex_string r'))
                | _ \<Rightarrow> None)
             else
               (case unescape e of
                  None \<Rightarrow> None
                | Some x \<Rightarrow> map_option (\<lambda>(s, t). (x # s, t)) (lex_string r)))
      else if c < 32 then None
      else map_option (\<lambda>(s, t). (c # s, t)) (lex_string cs))"

text \<open>A number token: \<open>-?(0|[1-9][0-9]*)(\.[0-9]+)?([eE][+-]?[0-9]+)?\<close>.\<close>

definition lex_fraction :: "jstring \<Rightarrow> (jstring option \<times> jstring)" where
  "lex_fraction s =
     (case s of
        d # r \<Rightarrow> if d = 46 then (Some (takeWhile is_digit r), dropWhile is_digit r) else (None, s)
      | [] \<Rightarrow> (None, s))"

definition lex_sign :: "jstring \<Rightarrow> (bool \<times> jstring)" where
  "lex_sign r =
     (case r of
        x # r' \<Rightarrow> if x = 43 then (False, r') else if x = 45 then (True, r') else (False, r)
      | [] \<Rightarrow> (False, r))"

definition lex_exponent :: "jstring \<Rightarrow> ((bool \<times> jstring) option \<times> jstring)" where
  "lex_exponent s =
     (case s of
        e # r \<Rightarrow>
          if e = 101 \<or> e = 69 then
            (case lex_sign r of (sg, r1) \<Rightarrow>
               (Some (sg, takeWhile is_digit r1), dropWhile is_digit r1))
          else (None, s)
      | [] \<Rightarrow> (None, s))"

definition lex_number :: "jstring \<Rightarrow> (numlit \<times> jstring) option" where
  "lex_number s =
     (let neg = (take 1 s = [45]);
          s1 = (if neg then drop 1 s else s);
          ds = takeWhile is_digit s1
      in if ds = [] then None
         else
           (let ip = (if take 1 ds = [48] then [48] else ds);
                s2 = drop (length ip) s1
            in case lex_fraction s2 of (fr, s3) \<Rightarrow>
                 if fr = Some [] then None
                 else
                   (case lex_exponent s3 of (ex, s4) \<Rightarrow>
                      (case ex of
                         Some (_, []) \<Rightarrow> None
                       | _ \<Rightarrow> Some (NumLit neg ip (case fr of None \<Rightarrow> [] | Some f \<Rightarrow> f) ex, s4)))))"

lemma lex_string_shorter: "lex_string s = Some (v, r) \<Longrightarrow> length r < length s"
proof (induction s arbitrary: v r rule: length_induct)
  case (1 xs)
  have IH: "\<And>ys v r. length ys < length xs \<Longrightarrow> lex_string ys = Some (v, r) \<Longrightarrow> length r < length ys"
    using 1(1) by blast
  from 1(2) show ?case
    by (cases xs) (auto split: if_splits option.splits list.splits dest!: IH[rotated] intro: less_SucI less_trans)
qed

lemma lex_fraction_shorter: "lex_fraction s = (f, r) \<Longrightarrow> length r \<le> length s"
  by (auto simp: lex_fraction_def split: list.splits if_splits
           intro: le_SucI length_dropWhile_le)

lemma lex_exponent_shorter: "lex_exponent s = (e, r) \<Longrightarrow> length r \<le> length s"
  by (auto simp: lex_exponent_def lex_sign_def split: list.splits if_splits prod.splits
           intro: le_SucI length_dropWhile_le order_trans[OF length_dropWhile_le])

lemma lex_number_shorter: "lex_number s = Some (n, r) \<Longrightarrow> length r < length s"
proof -
  assume a: "lex_number s = Some (n, r)"
  define s1 where "s1 = (if take 1 s = [45] then drop 1 s else s)"
  define ds where "ds = takeWhile is_digit s1"
  define ip where "ip = (if take 1 ds = [48] then [48] else ds)"
  define s2 where "s2 = drop (length ip) s1"
  from a have ne: "ds \<noteq> []"
    by (auto simp: lex_number_def Let_def ds_def s1_def split: if_splits)
  obtain fr s3 where f: "lex_fraction s2 = (fr, s3)" by (cases "lex_fraction s2")
  obtain ex s4 where e: "lex_exponent s3 = (ex, s4)" by (cases "lex_exponent s3")
  from a ne f e have r: "r = s4"
    by (auto simp: lex_number_def Let_def ds_def s1_def ip_def s2_def
             split: if_splits option.splits list.splits prod.splits)
  have d: "length ds \<le> length s1" unfolding ds_def by (rule length_takeWhile_le)
  from ne have i: "Suc 0 \<le> length ip" "length ip \<le> length ds"
    by (cases ds; simp add: ip_def)+
  have "length s2 < length s1" unfolding s2_def length_drop using d i by linarith
  moreover have "length s1 \<le> length s" by (simp add: s1_def)
  moreover note lex_fraction_shorter[OF f] lex_exponent_shorter[OF e]
  ultimately show ?thesis using r by simp
qed

function lex :: "jstring \<Rightarrow> token list option" where
  "lex [] = Some []"
| "lex (c # cs) =
     (if is_json_ws c then lex cs
      else if c = 123 then map_option (Cons LBrace) (lex cs)
      else if c = 125 then map_option (Cons RBrace) (lex cs)
      else if c = 91 then map_option (Cons LBracket) (lex cs)
      else if c = 93 then map_option (Cons RBracket) (lex cs)
      else if c = 58 then map_option (Cons Colon) (lex cs)
      else if c = 44 then map_option (Cons Comma) (lex cs)
      else if c = 34 then
        (case lex_string cs of
           None \<Rightarrow> None
         | Some (s, r) \<Rightarrow> map_option (Cons (TStr s)) (lex r))
      else if c = 45 \<or> is_digit c then
        (case lex_number (c # cs) of
           None \<Rightarrow> None
         | Some (n, r) \<Rightarrow> map_option (Cons (TNum n)) (lex r))
      else if take 4 (c # cs) = js ''true'' then map_option (Cons TTrue) (lex (drop 3 cs))
      else if take 5 (c # cs) = js ''false'' then map_option (Cons TFalse) (lex (drop 4 cs))
      else if take 4 (c # cs) = js ''null'' then map_option (Cons TNull) (lex (drop 3 cs))
      else None)"
  by pat_completeness auto
termination
  by (relation "measure length")
     (auto dest: lex_string_shorter lex_number_shorter intro: less_SucI)

text \<open>The parser: a stack of the containers still open, and what may come next.\<close>

datatype container = ArrC "json list" | ObjC "(jstring \<times> json) list" "jstring option"

datatype pmode = PValue | PArrStart | PObjStart | PKey | PColon | PAfter | PDone json

text \<open>A finished value goes to the innermost open container, or is the result.\<close>

definition complete :: "json \<Rightarrow> container list \<Rightarrow> (pmode \<times> container list) option" where
  "complete v st =
     (case st of
        [] \<Rightarrow> Some (PDone v, [])
      | ArrC acc # r \<Rightarrow> Some (PAfter, ArrC (v # acc) # r)
      | ObjC ms (Some k) # r \<Rightarrow> Some (PAfter, ObjC ((k, v) # ms) None # r)
      | ObjC ms None # r \<Rightarrow> None)"

definition begin_value :: "container list \<Rightarrow> token \<Rightarrow> (pmode \<times> container list) option" where
  "begin_value st t =
     (case t of
        LBracket \<Rightarrow> Some (PArrStart, ArrC [] # st)
      | LBrace \<Rightarrow> Some (PObjStart, ObjC [] None # st)
      | TStr s \<Rightarrow> complete (JStr s) st
      | TNum n \<Rightarrow> complete (JNum n) st
      | TTrue \<Rightarrow> complete (JBool True) st
      | TFalse \<Rightarrow> complete (JBool False) st
      | TNull \<Rightarrow> complete JNull st
      | _ \<Rightarrow> None)"

definition close_arr :: "container list \<Rightarrow> (pmode \<times> container list) option" where
  "close_arr st = (case st of ArrC acc # r \<Rightarrow> complete (JArr (rev acc)) r | _ \<Rightarrow> None)"

definition close_obj :: "container list \<Rightarrow> (pmode \<times> container list) option" where
  "close_obj st = (case st of ObjC ms None # r \<Rightarrow> complete (JObj (rev ms)) r | _ \<Rightarrow> None)"

definition set_key :: "jstring \<Rightarrow> container list \<Rightarrow> (pmode \<times> container list) option" where
  "set_key k st = (case st of ObjC ms None # r \<Rightarrow> Some (PColon, ObjC ms (Some k) # r) | _ \<Rightarrow> None)"

definition pstep :: "pmode \<Rightarrow> container list \<Rightarrow> token \<Rightarrow> (pmode \<times> container list) option" where
  "pstep m st t =
     (case m of
        PValue \<Rightarrow> begin_value st t
      | PArrStart \<Rightarrow> (case t of RBracket \<Rightarrow> close_arr st | _ \<Rightarrow> begin_value st t)
      | PObjStart \<Rightarrow> (case t of RBrace \<Rightarrow> close_obj st | TStr k \<Rightarrow> set_key k st | _ \<Rightarrow> None)
      | PKey \<Rightarrow> (case t of TStr k \<Rightarrow> set_key k st | _ \<Rightarrow> None)
      | PColon \<Rightarrow> (case t of Colon \<Rightarrow> Some (PValue, st) | _ \<Rightarrow> None)
      | PAfter \<Rightarrow>
          (case t of
             Comma \<Rightarrow>
               (case st of
                  ArrC acc # r \<Rightarrow> Some (PValue, st)
                | ObjC ms None # r \<Rightarrow> Some (PKey, st)
                | _ \<Rightarrow> None)
           | RBracket \<Rightarrow> close_arr st
           | RBrace \<Rightarrow> close_obj st
           | _ \<Rightarrow> None)
      | PDone v \<Rightarrow> None)"

fun parse_tokens :: "pmode \<Rightarrow> container list \<Rightarrow> token list \<Rightarrow> json option" where
  "parse_tokens m st [] = (case m of PDone v \<Rightarrow> Some v | _ \<Rightarrow> None)"
| "parse_tokens m st (t # ts) =
     (case pstep m st t of None \<Rightarrow> None | Some (m', st') \<Rightarrow> parse_tokens m' st' ts)"

definition JSON_parse :: "jstring \<Rightarrow> json option" where
  "JSON_parse s = (case lex s of None \<Rightarrow> None | Some ts \<Rightarrow> parse_tokens PValue [] ts)"

subsection \<open>Truthiness and property access\<close>

definition digitsVal :: "jstring \<Rightarrow> nat" where
  "digitsVal ds = foldl (\<lambda>a d. 10 * a + (d - 48)) 0 ds"

text \<open>
  A number is falsy when it is zero as a double: its digits are all zero, or it is
  at most \<open>2^-1075\<close>, half the least positive double, and so rounds to zero.
\<close>

fun numIsZero :: "numlit \<Rightarrow> bool" where
  "numIsZero (NumLit neg ip fr ex) =
     (let m = digitsVal (ip @ fr);
          e = (case ex of
                 None \<Rightarrow> 0
               | Some (sg, ds) \<Rightarrow> if sg then - int (digitsVal ds) else int (digitsVal ds));
          k = e - int (length fr)
      in m = 0 \<or> (k < 0 \<and> m * 2 ^ 1075 \<le> 10 ^ nat (- k)))"

fun truthy :: "json \<Rightarrow> bool" where
  "truthy JNull = False"
| "truthy (JBool b) = b"
| "truthy (JNum n) = (\<not> numIsZero n)"
| "truthy (JStr s) = (s \<noteq> [])"
| "truthy (JArr xs) = True"
| "truthy (JObj ms) = True"

text \<open>
  \<open>v.name\<close> and \<open>v.content\<close>: an own property of a parsed object (the last of
  duplicate keys), \<open>undefined\<close> on every other value.
\<close>

fun getProp :: "json \<Rightarrow> jstring \<Rightarrow> json option" where
  "getProp (JObj ms) k = map_of (rev ms) k"
| "getProp _ k = None"

definition truthyProp :: "json option \<Rightarrow> bool" where
  "truthyProp v = (case v of None \<Rightarrow> False | Some x \<Rightarrow> truthy x)"

section \<open>The Result Store\<close>

text \<open>
  \<open>currentResult\<close>: the \<open>response\<close> is a string or, for a story, the parsed
  object itself.
\<close>

datatype payload = Text jstring | Story json

record result =
  response :: payload
  isProcessing :: bool
  lastModified :: "jstring option"
  error :: "jstring option"

section \<open>The server state and its environment\<close>

text \<open>
  What a synchronous stretch of the server reads from outside: the prompt file,
  the process environment, the clock, the random source and whether the audit log
  accepts an append. \<open>random36\<close> is \<open>Math.random().toString(36)\<close>, \<open>uniqueId\<close>
  the rendering of \<open>Date.now() + Math.random()\<close>, and \<open>randomNumber\<close> is
  \<open>Math.floor(Math.random() * 1000000)\<close>.
\<close>

datatype file_state = Missing | Unreadable jstring | Present jstring

record env =
  promptFile :: file_state
  apiKey :: "jstring option"
  production :: bool
  now :: jstring
  nowLocal :: jstring
  random36 :: jstring
  uniqueId :: jstring
  randomNumber :: nat
  logWritable :: bool

text \<open>
  A caller is named by its arrival number. The owner of a run is the caller that
  awaits the run's own promise (\<open>Direct\<close>), or a queued caller whose resolve
  callback is chained to it with \<open>.then(nextResolve)\<close>.
\<close>

datatype owner = Direct nat | Queued nat

fun ownerId :: "owner \<Rightarrow> nat" where
  "ownerId (Direct w) = w"
| "ownerId (Queued w) = w"

text \<open>Where the run in flight is suspended.\<close>

datatype suspension = NoRun | AwaitNetwork jstring | AwaitResume

datatype console_entry =
    RequestLogged bool
  | LogWriteFailed
  | InitialParseFailed
  | JsonParseError jstring
  | ClaudeApiError jstring
  | ErrorProcessingPrompt jstring

datatype outcome = Failure jstring | Success "payload option"

record audit_record =
  timestampUTC :: jstring
  timestampLocal :: jstring
  promptSent :: jstring
  outcome :: outcome

text \<open>Observations kept for the ordering properties.\<close>

datatype obs = Began nat | Wrote nat | Released nat

text \<open>
  Snapshots live in a heap; \<open>cur\<close> is the reference the variable
  \<open>currentResult\<close> holds and \<open>fresh\<close> the next unused address. \<open>posted\<close> lists the
  prompts sent with \<open>axios.post\<close>, \<open>settled\<close> counts the requests that have
  resolved or rejected, \<open>microtasks\<close> holds the resolve callbacks already
  scheduled, in order.
\<close>

record server =
  heap :: "nat \<Rightarrow> result"
  cur :: nat
  fresh :: nat
  isCurrentlyProcessing :: bool
  requestQueue :: "nat list"
  pending :: suspension
  current :: "owner option"
  microtasks :: "nat list"
  callers :: nat
  posted :: "jstring list"
  settled :: nat
  auditLog :: "audit_record list"
  console :: "console_entry list"
  trace :: "obs list"

definition currentResult :: "server \<Rightarrow> result" where
  "currentResult s = heap s (cur s)"

definition wrote :: "owner option \<Rightarrow> obs list" where
  "wrote c = (case c of None \<Rightarrow> [] | Some w \<Rightarrow> [Wrote (ownerId w)])"

text \<open>\<open>currentResult = { ... }\<close>: a new object, and the variable is pointed at it.\<close>

definition setResult :: "result \<Rightarrow> server \<Rightarrow> server" where
  "setResult r s =
     s\<lparr>heap := (heap s)(fresh s := r), cur := fresh s, fresh := Suc (fresh s),
       trace := trace s @ wrote (current s)\<rparr>"

text \<open>\<open>currentResult.f = v\<close>: the object the variable refers to is changed in place.\<close>

definition mutResult :: "(result \<Rightarrow> result) \<Rightarrow> server \<Rightarrow> server" where
  "mutResult f s = s\<lparr>heap := (heap s)(cur s := f (heap s (cur s)))\<rparr>"

definition initialResult :: result where
  "initialResult =
     \<lparr>response = Text (js ''Waiting for prompt... Edit prompt.txt and save to see results here.''),
      isProcessing = False, lastModified = None, error = None\<rparr>"

definition init :: server where
  "init =
     \<lparr>heap = (\<lambda>a. initialResult), cur = 0, fresh = 1, isCurrentlyProcessing = False,
      requestQueue = [], pending = NoRun, current = None, microtasks = [], callers = 0,
      posted = [], settled = 0, auditLog = [], console = [], trace = []\<rparr>"

section \<open>logRequest\<close>

text \<open>
  One record per call; \<open>error ? ... : ...\<close> tests the message for truthiness, and a
  failed append is caught and reported on the console.
\<close>

definition logRequest :: "env \<Rightarrow> jstring \<Rightarrow> payload option \<Rightarrow> jstring option \<Rightarrow> server \<Rightarrow> server" where
  "logRequest e prompt resp err s =
     (let entry =
        \<lparr>timestampUTC = now e, timestampLocal = nowLocal e,
         promptSent = (if prompt = [] then js ''No prompt'' else prompt),
         outcome = (case err of
                      None \<Rightarrow> Success resp
                    | Some m \<Rightarrow> if m = [] then Success resp else Failure m)\<rparr>
      in if logWritable e
         then s\<lparr>auditLog := auditLog s @ [entry],
                console := console s @ [RequestLogged (truthyStr err)]\<rparr>
         else s\<lparr>console := console s @ [LogWriteFailed]\<rparr>)"

section \<open>The response normalizer\<close>

text \<open>
  \<open>claudeResponse.match(/```json\s*(\{[\s\S]*?\})\s*```/)\<close>: the first position
  where the fence opens, followed by white space and a brace; the group runs to
  the first closing brace that white space and a closing fence follow.
\<close>

definition is_fence_close :: "jstring \<Rightarrow> bool" where
  \<open>is_fence_close s \<longleftrightarrow> take 3 (dropWhile is_space s) = js ''```''\<close>

fun lazy_body :: "jstring \<Rightarrow> jstring option" where
  "lazy_body [] = None"
| "lazy_body (c # cs) =
     (if c = 125 \<and> is_fence_close cs then Some [c] else map_option (Cons c) (lazy_body cs))"

definition fence_at :: "jstring \<Rightarrow> jstring option" where
  \<open>fence_at s =
     (case strip_prefix (js ''```json'') s of
        None \<Rightarrow> None
      | Some r \<Rightarrow>
          (case dropWhile is_space r of
             [] \<Rightarrow> None
           | b # r' \<Rightarrow> if b = 123 then map_option (Cons b) (lazy_body r') else None))\<close>

fun match_fence :: "jstring \<Rightarrow> jstring option" where
  "match_fence [] = None"
| "match_fence (c # cs) =
     (case fence_at (c # cs) of Some g \<Rightarrow> Some g | None \<Rightarrow> match_fence cs)"

text \<open>
  The repair pass. \<open>((?:[^"\\]|\\.)*)"\<close> read after an opening quote: the group
  and the text after the closing quote.
\<close>

fun string_tail :: "jstring \<Rightarrow> (jstring \<times> jstring) option" where
  "string_tail [] = None"
| "string_tail (c # cs) =
     (if c = 34 then Some ([], cs)
      else if c = 92 then
        (case cs of
           [] \<Rightarrow> None
         | d # r \<Rightarrow> map_option (\<lambda>(b, t). (c # d # b, t)) (string_tail r))
      else map_option (\<lambda>(b, t). (c # b, t)) (string_tail cs))"

text \<open>\<open>"key":\s*"((?:[^"\\]|\\.)*)"\<close> matched at the head of the text.\<close>

definition field_at :: "jstring \<Rightarrow> jstring \<Rightarrow> (jstring \<times> jstring) option" where
  "field_at key s =
     (case strip_prefix ([34] @ key @ [34, 58]) s of
        None \<Rightarrow> None
      | Some r \<Rightarrow>
          (case dropWhile is_space r of
             [] \<Rightarrow> None
           | q # r' \<Rightarrow> if q = 34 then string_tail r' else None))"

definition escapeControls :: "jstring \<Rightarrow> jstring" where
  "escapeControls content =
     replaceAll 9 [92, 116] (replaceAll 13 [92, 114] (replaceAll 10 [92, 110] content))"

lemma string_tail_shorter: "string_tail s = Some (b, r) \<Longrightarrow> length r < length s"
proof (induction s arbitrary: b r rule: length_induct)
  case (1 xs)
  have IH: "\<And>ys b r. length ys < length xs \<Longrightarrow> string_tail ys = Some (b, r) \<Longrightarrow> length r < length ys"
    using 1(1) by blast
  from 1(2) show ?case
    by (cases xs) (auto split: if_splits option.splits list.splits dest!: IH[rotated] intro: less_SucI less_trans)
qed

lemma field_at_shorter: "field_at key s = Some (b, r) \<Longrightarrow> length r < length s"
proof -
  assume a: "field_at key s = Some (b, r)"
  then obtain t where t: "strip_prefix ([34] @ key @ [34, 58]) s = Some t"
    by (auto simp: field_at_def split: option.splits)
  with a obtain q r' where q: "dropWhile is_space t = q # r'" and st: "string_tail r' = Some (b, r)"
    by (auto simp: field_at_def split: option.splits list.splits if_splits)
  from t have "length t \<le> length s"
    by (auto simp: strip_prefix_def split: if_splits)
  moreover have "length (dropWhile is_space t) \<le> length t" by (rule length_dropWhile_le)
  moreover note string_tail_shorter[OF st]
  ultimately show ?thesis using q by simp
qed

text \<open>
  \<open>cleaned.replace(/"key":\s*"((?:[^"\\]|\\.)*)"/gs, ...)\<close>: every match, left to
  right, is rewritten with its control characters escaped.
\<close>

function fixField :: "jstring \<Rightarrow> jstring \<Rightarrow> jstring" where
  "fixField key [] = []"
| "fixField key (c # cs) =
     (case field_at key (c # cs) of
        Some (content, rest) \<Rightarrow>
          [34] @ key @ [34, 58, 32, 34] @ escapeControls content @ [34] @ fixField key rest
      | None \<Rightarrow> c # fixField key cs)"
  by pat_completeness auto
termination
  by (relation "measure (\<lambda>(k, s). length s)") (auto dest: field_at_shorter)

definition repair :: "jstring \<Rightarrow> jstring" where
  "repair claudeResponse =
     fixField (js ''shareableQuote'') (fixField (js ''content'') (trim claudeResponse))"

text \<open>
  The two parse attempts: the parsed value, if any, and what the attempts print.
\<close>

definition parsePass :: "jstring \<Rightarrow> json option \<times> console_entry list" where
  "parsePass claudeResponse =
     (case JSON_parse claudeResponse of
        Some v \<Rightarrow> (Some v, [])
      | None \<Rightarrow>
          (case JSON_parse (repair claudeResponse) of
             Some v \<Rightarrow> (Some v, [InitialParseFailed])
           | None \<Rightarrow> (None, [InitialParseFailed, JsonParseError (take 500 claudeResponse)])))"

text \<open>\<open>parsedJson && parsedJson.name && parsedJson.content\<close>\<close>

definition isStory :: "json \<Rightarrow> bool" where
  "isStory v \<longleftrightarrow>
     truthy v \<and> truthyProp (getProp v (js ''name'')) \<and> truthyProp (getProp v (js ''content''))"

section \<open>executeClaudeAPICall\<close>

text \<open>
  How the request ends: rejected (non-2xx, timeout, network), an envelope without
  \<open>data.content[0]\<close>, a first block whose \<open>text\<close> is not a string (the call of
  \<open>match\<close> on it raises a TypeError with the given message), or a text block.
\<close>

datatype upstream = Rejected jstring | NoContent | MalformedBlock jstring | TextBlock jstring

definition fresh_result :: "env \<Rightarrow> payload \<Rightarrow> jstring option \<Rightarrow> result" where
  "fresh_result e p err =
     \<lparr>response = p, isProcessing = False, lastModified = Some (now e), error = err\<rparr>"

text \<open>Up to the \<open>await\<close> of the request: with no key nothing is sent.\<close>

definition executeClaudeAPICall_start :: "env \<Rightarrow> jstring \<Rightarrow> server \<Rightarrow> server" where
  "executeClaudeAPICall_start e prompt s =
     (if \<not> truthyStr (apiKey e) then
        (logRequest e prompt None (Some (js ''CLAUDE_API_KEY not configured''))
           (setResult
              (fresh_result e (Text (js ''API key not configured''))
                 (Some (js ''CLAUDE_API_KEY not configured''))) s))
          \<lparr>pending := AwaitResume\<rparr>
      else s\<lparr>posted := posted s @ [prompt], pending := AwaitNetwork prompt\<rparr>)"

definition storeResponse :: "env \<Rightarrow> jstring \<Rightarrow> jstring \<Rightarrow> server \<Rightarrow> server" where
  "storeResponse e prompt text s =
     (let claudeResponse = (case match_fence text of Some g \<Rightarrow> g | None \<Rightarrow> text)
      in case parsePass claudeResponse of (parsed, printed) \<Rightarrow>
           (let s1 = s\<lparr>console := console s @ printed\<rparr>;
                p = (case parsed of
                       Some v \<Rightarrow> if isStory v then Story v else Text claudeResponse
                     | None \<Rightarrow> Text claudeResponse)
            in logRequest e prompt (Some p) None (setResult (fresh_result e p None) s1)))"

text \<open>The \<open>try\<close> block once the request has ended: a thrown error is \<open>Inl\<close>.\<close>

definition apiTryBody :: "env \<Rightarrow> jstring \<Rightarrow> upstream \<Rightarrow> server \<Rightarrow> jstring + server" where
  "apiTryBody e prompt up s =
     (case up of
        Rejected msg \<Rightarrow> Inl msg
      | NoContent \<Rightarrow> Inl (js ''Invalid response from Claude API'')
      | MalformedBlock msg \<Rightarrow> Inl msg
      | TextBlock text \<Rightarrow> Inr (storeResponse e prompt text s))"

definition errorField :: "env \<Rightarrow> jstring \<Rightarrow> jstring" where
  "errorField e msg = (if production e then js ''Processing failed'' else msg)"

definition apiCatch :: "env \<Rightarrow> jstring \<Rightarrow> jstring \<Rightarrow> server \<Rightarrow> server" where
  "apiCatch e prompt msg s =
     logRequest e prompt None (Some msg)
       (setResult (fresh_result e (Text (js ''Error processing request'')) (Some (errorField e msg)))
          (s\<lparr>console := console s @ [ClaudeApiError msg]\<rparr>))"

definition executeClaudeAPICall_resume :: "env \<Rightarrow> jstring \<Rightarrow> upstream \<Rightarrow> server \<Rightarrow> server" where
  "executeClaudeAPICall_resume e prompt up s =
     (let s0 = s\<lparr>settled := Suc (settled s)\<rparr>;
          s1 = (case apiTryBody e prompt up s0 of Inr s' \<Rightarrow> s' | Inl msg \<Rightarrow> apiCatch e prompt msg s0)
      in s1\<lparr>pending := AwaitResume\<rparr>)"

section \<open>processPromptFile\<close>

function decimal :: "nat \<Rightarrow> jstring" where
  "decimal n = (if n < 10 then [48 + n] else decimal (n div 10) @ [48 + n mod 10])"
  by pat_completeness auto
termination
  by (relation "measure id") auto

declare decimal.simps [simp del]

text \<open>\<open>Math.random().toString(36).substring(7)\<close>\<close>

definition generationId :: "env \<Rightarrow> jstring" where
  "generationId e = drop 7 (random36 e)"

definition augmentPrompt :: "jstring \<Rightarrow> env \<Rightarrow> jstring" where
  "augmentPrompt basePrompt e =
     basePrompt @ [10, 10] @
     js ''Generation Metadata (use this to ensure uniqueness):'' @ [10] @
     js ''- Generation ID: '' @ generationId e @ [10] @
     js ''- Timestamp: '' @ now e @ [10] @
     js ''- Unique Request ID: '' @ uniqueId e @ [10] @
     js ''- Random Seed: '' @ decimal (randomNumber e) @ [10, 10] @
     js ''CRITICAL INSTRUCTIONS:'' @ [10] @
     js ''1. Generate a story about a COMPLETELY DIFFERENT historical figure than any previous generation'' @ [10] @
     js ''2. Use the random seed above to select a unique figure'' @ [10] @
     js ''3. Vary the time period, region, and theme'' @ [10] @
     js ''4. NEVER repeat the same historical figure'' @ [10] @
     js ''5. Prioritize lesser-known figures to maximize variety''"

definition processingMarker :: "result \<Rightarrow> result" where
  "processingMarker r = r\<lparr>isProcessing := True, response := Text (js ''Processing...''), error := None\<rparr>"

definition catchBlock :: "env \<Rightarrow> jstring \<Rightarrow> server \<Rightarrow> server" where
  "catchBlock e msg s =
     setResult (fresh_result e (Text (js ''Error processing request'')) (Some (errorField e msg)))
       (s\<lparr>console := console s @ [ErrorProcessingPrompt msg]\<rparr>)"

text \<open>
  A run either returns inside this synchronous stretch or is suspended at
  \<open>await executeClaudeAPICall(prompt)\<close>.
\<close>

datatype run_state = Suspended server | Completed server

definition tryBlock :: "env \<Rightarrow> server \<Rightarrow> run_state" where
  "tryBlock e s =
     (case promptFile e of
        Missing \<Rightarrow>
          Completed (setResult
            \<lparr>response = Text (js ''prompt.txt file not found''), isProcessing = False,
             lastModified = None, error = Some (js ''File not found'')\<rparr> s)
      | Unreadable msg \<Rightarrow> Completed (catchBlock e msg s)
      | Present content \<Rightarrow>
          (let basePrompt = trim content
           in if basePrompt = [] then
                Completed (setResult
                  \<lparr>response = Text (js ''Please add your prompt to prompt.txt''),
                   isProcessing = False, lastModified = None, error = None\<rparr> s)
              else
                Suspended (executeClaudeAPICall_start e (augmentPrompt basePrompt e)
                             (mutResult processingMarker s))))"

text \<open>The body after the test of \<open>isCurrentlyProcessing\<close>.\<close>

definition beginRun :: "env \<Rightarrow> owner \<Rightarrow> server \<Rightarrow> run_state" where
  "beginRun e w s =
     tryBlock e (s\<lparr>isCurrentlyProcessing := True, current := Some w,
                   trace := trace s @ [Began (ownerId w)]\<rparr>)"

lemma beginRun_queue:
  "beginRun e w s = Completed s' \<Longrightarrow> requestQueue s' = requestQueue s"
  by (auto simp: beginRun_def tryBlock_def setResult_def catchBlock_def Let_def
           split: file_state.splits if_splits)

text \<open>
  The \<open>finally\<close> block: the flag is cleared and the next queued caller is taken;
  \<open>processPromptFile()\<close> runs for it at once, and \<open>.then(nextResolve)\<close> schedules
  the callback right away when that run has already returned.
\<close>

function finallyBlock :: "env \<Rightarrow> server \<Rightarrow> server" where
  "finallyBlock e s =
     (let s1 = s\<lparr>isCurrentlyProcessing := False, current := None\<rparr>
      in case requestQueue s1 of
           [] \<Rightarrow> s1
         | w # q \<Rightarrow>
             (case beginRun e (Queued w) (s1\<lparr>requestQueue := q\<rparr>) of
                Suspended s2 \<Rightarrow> s2
              | Completed s2 \<Rightarrow>
                  (let s3 = finallyBlock e s2 in s3\<lparr>microtasks := microtasks s3 @ [w]\<rparr>)))"
  by pat_completeness auto
termination
  by (relation "measure (\<lambda>(e, s). length (requestQueue s))")
     (auto dest!: beginRun_queue)

declare finallyBlock.simps [simp del]

text \<open>The run's promise is fulfilled: its owner is released, or its callback scheduled.\<close>

definition fulfil :: "owner \<Rightarrow> server \<Rightarrow> server" where
  "fulfil w s =
     (case w of
        Direct c \<Rightarrow> s\<lparr>trace := trace s @ [Released c]\<rparr>
      | Queued c \<Rightarrow> s\<lparr>microtasks := microtasks s @ [c]\<rparr>)"

text \<open>A call of \<open>processPromptFile()\<close> by a new caller.\<close>

definition processPromptFile :: "env \<Rightarrow> server \<Rightarrow> server" where
  "processPromptFile e s =
     (let w = callers s; s0 = s\<lparr>callers := Suc w\<rparr>
      in if isCurrentlyProcessing s0 then s0\<lparr>requestQueue := requestQueue s0 @ [w]\<rparr>
         else
           (case beginRun e (Direct w) s0 of
              Suspended s1 \<Rightarrow> s1
            | Completed s1 \<Rightarrow> fulfil (Direct w) (finallyBlock e s1)))"

text \<open>The suspended run continues after its \<open>await\<close>.\<close>

definition processPromptFile_resume :: "env \<Rightarrow> server \<Rightarrow> server" where
  "processPromptFile_resume e s =
     (case current s of
        None \<Rightarrow> s
      | Some w \<Rightarrow> fulfil w (finallyBlock e (s\<lparr>pending := NoRun\<rparr>)))"

section \<open>The event loop\<close>

text \<open>The scheduled callbacks run when the synchronous stretch has ended.\<close>

definition flush :: "server \<Rightarrow> server" where
  "flush s = s\<lparr>trace := trace s @ map Released (microtasks s), microtasks := []\<rparr>"

datatype event = Trigger env | NetworkDone env upstream | Resume env

fun step :: "event \<Rightarrow> server \<Rightarrow> server option" where
  "step (Trigger e) s = Some (flush (processPromptFile e s))"
| "step (NetworkDone e up) s =
     (case pending s of
        AwaitNetwork prompt \<Rightarrow> Some (flush (executeClaudeAPICall_resume e prompt up s))
      | _ \<Rightarrow> None)"
| "step (Resume e) s =
     (case pending s of
        AwaitResume \<Rightarrow> Some (flush (processPromptFile_resume e s))
      | _ \<Rightarrow> None)"

fun steps :: "event list \<Rightarrow> server \<Rightarrow> server option" where
  "steps [] s = Some s"
| "steps (ev # evs) s = (case step ev s of None \<Rightarrow> None | Some s' \<Rightarrow> steps evs s')"

section \<open>API key middleware (security.js)\<close>

text \<open>
  \<open>Buffer.from(string)\<close> encodes UTF-8; a lone surrogate becomes the replacement
  character EF BF BD.
\<close>

fun utf8 :: "jstring \<Rightarrow> nat list" where
  "utf8 [] = []"
| "utf8 (c # cs) =
     (if c < 128 then c # utf8 cs
      else if c < 2048 then [192 + c div 64, 128 + c mod 64] @ utf8 cs
      else if 55296 \<le> c \<and> c < 56320 then
        (case cs of
           [] \<Rightarrow> [239, 191, 189]
         | d # ds \<Rightarrow>
             if 56320 \<le> d \<and> d < 57344 then
               (let cp = 65536 + (c - 55296) * 1024 + (d - 56320)
                in [240 + cp div 262144, 128 + (cp div 4096) mod 64,
                    128 + (cp div 64) mod 64, 128 + cp mod 64] @ utf8 ds)
             else [239, 191, 189] @ utf8 cs)
      else if 56320 \<le> c \<and> c < 57344 then [239, 191, 189] @ utf8 cs
      else [224 + c div 4096, 128 + (c div 64) mod 64, 128 + c mod 64] @ utf8 cs)"

text \<open>
  The key a request provides: \<open>req.headers['x-api-key']\<close> is a string when the
  header is present; \<open>req.query.apikey\<close> is a string, or an array or object when
  the query string is written \<open>apikey[]=..\<close>. For such a value the model carries
  what \<open>Buffer.from\<close> makes of it: the bytes, or \<open>None\<close> when it throws.
\<close>

datatype key_value = KeyString jstring | KeyOther "nat list option"

record request =
  headerApiKey :: "jstring option"
  queryApiKey :: "key_value option"

datatype verdict = Next | Reject401 jstring | Throws

text \<open>\<open>req.headers['x-api-key'] || req.query.apikey\<close>\<close>

definition providedKey :: "request \<Rightarrow> key_value option" where
  "providedKey req =
     (if truthyStr (headerApiKey req) then map_option KeyString (headerApiKey req)
      else queryApiKey req)"

definition truthyKey :: "key_value option \<Rightarrow> bool" where
  "truthyKey v = (case v of None \<Rightarrow> False | Some (KeyString s) \<Rightarrow> s \<noteq> [] | Some (KeyOther _) \<Rightarrow> True)"

definition bufferFrom :: "key_value \<Rightarrow> nat list option" where
  "bufferFrom v = (case v of KeyString s \<Rightarrow> Some (utf8 s) | KeyOther b \<Rightarrow> b)"

definition requireApiKey :: "jstring option \<Rightarrow> request \<Rightarrow> verdict" where
  "requireApiKey expectedKey req =
     (if \<not> truthyStr expectedKey then Next
      else if \<not> truthyKey (providedKey req) then Reject401 (js ''API key required'')
      else
        (case Option.bind (providedKey req) bufferFrom of
           None \<Rightarrow> Throws
         | Some providedBuffer \<Rightarrow>
             (let expectedBuffer = utf8 (case expectedKey of Some k \<Rightarrow> k | None \<Rightarrow> [])
              in if length providedBuffer \<noteq> length expectedBuffer
                   then Reject401 (js ''Invalid API key'')
                 else if providedBuffer \<noteq> expectedBuffer
                   then Reject401 (js ''Invalid API key'')
                 else Next)))"

section \<open>Requests for the refresh route\<close>

text \<open>
  \<open>app.post('/api/refresh', security.requireApiKey, postRefreshHandler)\<close>: the
  handler runs when the middleware calls \<open>next()\<close>.
\<close>

datatype 'a routed = Handled 'a | Refused verdict

definition refreshRoute :: "jstring option \<Rightarrow> request \<Rightarrow> 'a \<Rightarrow> 'a routed" where
  "refreshRoute expectedKey req handler =
     (case requireApiKey expectedKey req of Next \<Rightarrow> Handled handler | v \<Rightarrow> Refused v)"

section \<open>Invariants of the coordinator\<close>

fun begun :: "obs list \<Rightarrow> nat list" where
  "begun [] = []"
| "begun (Began w # t) = w # begun t"
| "begun (x # t) = begun t"

fun awaiting :: "suspension \<Rightarrow> nat" where
  "awaiting (AwaitNetwork p) = 1"
| "awaiting s = 0"

definition ordered :: "obs list \<Rightarrow> bool" where
  "ordered t \<longleftrightarrow> (\<forall>pre w post. t = pre @ Released w # post \<longrightarrow> Wrote w \<in> set pre)"

definition coord_inv :: "server \<Rightarrow> bool" where
  "coord_inv s \<longleftrightarrow>
     [0..<callers s] = begun (trace s) @ requestQueue s \<and>
     length (posted s) = settled s + awaiting (pending s) \<and>
     cur s < fresh s \<and>
     (isProcessing (currentResult s) \<longrightarrow> response (currentResult s) = Text (js ''Processing...'')) \<and>
     ordered (trace s) \<and>
     (\<forall>w \<in> set (microtasks s). Wrote w \<in> set (trace s)) \<and>
     (pending s = AwaitResume \<longrightarrow> (\<exists>w. current s = Some w \<and> Wrote (ownerId w) \<in> set (trace s)))"

definition quiet :: "server \<Rightarrow> bool" where
  "quiet s \<longleftrightarrow>
     (isCurrentlyProcessing s \<longleftrightarrow> pending s \<noteq> NoRun) \<and>
     (pending s \<noteq> NoRun \<longrightarrow> current s \<noteq> None) \<and>
     (\<not> isCurrentlyProcessing s \<longrightarrow> requestQueue s = [])"

lemma begun_append [simp]: "begun (a @ b) = begun a @ begun b"
  by (induction a rule: begun.induct) auto

lemma begun_wrote [simp]: "begun (wrote c) = []"
  by (cases c) (auto simp: wrote_def)

lemma begun_released [simp]: "begun (map Released ms) = []"
  by (induction ms) auto

lemma ordered_snoc:
  "ordered (t @ [x]) \<longleftrightarrow> ordered t \<and> (\<forall>w. x = Released w \<longrightarrow> Wrote w \<in> set t)"
proof
  assume o: "ordered (t @ [x])"
  have "ordered t" unfolding ordered_def
  proof (intro allI impI)
    fix pre w post assume "t = pre @ Released w # post"
    then have "t @ [x] = pre @ Released w # (post @ [x])" by simp
    with o show "Wrote w \<in> set pre" unfolding ordered_def by blast
  qed
  moreover have "\<forall>w. x = Released w \<longrightarrow> Wrote w \<in> set t"
  proof (intro allI impI)
    fix w assume "x = Released w"
    then have "t @ [x] = t @ Released w # []" by simp
    with o show "Wrote w \<in> set t" unfolding ordered_def by blast
  qed
  ultimately show "ordered t \<and> (\<forall>w. x = Released w \<longrightarrow> Wrote w \<in> set t)" ..
next
  assume a: "ordered t \<and> (\<forall>w. x = Released w \<longrightarrow> Wrote w \<in> set t)"
  show "ordered (t @ [x])" unfolding ordered_def
  proof (intro allI impI)
    fix pre w post assume e: "t @ [x] = pre @ Released w # post"
    show "Wrote w \<in> set pre"
    proof (cases post rule: rev_cases)
      case Nil
      with e have "t = pre" "x = Released w" by auto
      with a show ?thesis by blast
    next
      case (snoc post' y)
      with e have "t = pre @ Released w # post'" by (metis append_Cons append_assoc butlast_snoc)
      with a show ?thesis unfolding ordered_def by blast
    qed
  qed
qed

lemma ordered_Nil [simp]: "ordered []"
  by (simp add: ordered_def)

lemma ordered_began [simp]: "ordered (t @ [Began w]) = ordered t"
  by (simp add: ordered_snoc)

lemma ordered_wrote [simp]: "ordered (t @ wrote c) = ordered t"
  by (cases c) (simp_all add: wrote_def ordered_snoc)

lemma ordered_wrote1 [simp]: "ordered (t @ [Wrote w]) = ordered t"
  by (simp add: ordered_snoc)

lemma js_Nil [simp]: "js s = [] \<longleftrightarrow> s = []"
  by (simp add: js_def)

lemma ordered_released: "ordered (t @ [Released w]) \<longleftrightarrow> ordered t \<and> Wrote w \<in> set t"
  by (simp add: ordered_snoc)

lemma ordered_flush:
  "ordered t \<Longrightarrow> \<forall>w \<in> set ms. Wrote w \<in> set t \<Longrightarrow> ordered (t @ map Released ms)"
proof (induction ms rule: rev_induct)
  case Nil
  then show ?case by simp
next
  case (snoc m ms)
  then have "ordered ((t @ map Released ms) @ [Released m])"
    by (subst ordered_snoc) auto
  then show ?case by simp
qed

lemmas unfolds = tryBlock_def setResult_def mutResult_def catchBlock_def currentResult_def
  fresh_result_def Let_def executeClaudeAPICall_start_def logRequest_def processingMarker_def

lemma tryBlock_Completed:
  assumes "tryBlock e s = Completed s'" "coord_inv s" "pending s = NoRun" "current s = Some w"
  shows "coord_inv s' \<and> pending s' = NoRun \<and> requestQueue s' = requestQueue s \<and>
     callers s' = callers s \<and> set (trace s) \<subseteq> set (trace s') \<and> Wrote (ownerId w) \<in> set (trace s')"
  using assms
  by (auto simp: coord_inv_def unfolds wrote_def split: file_state.splits if_splits)

lemma tryBlock_Suspended:
  assumes "tryBlock e s = Suspended s'" "coord_inv s" "pending s = NoRun" "current s = Some w"
  shows "coord_inv s' \<and> pending s' \<noteq> NoRun \<and> requestQueue s' = requestQueue s \<and>
     callers s' = callers s \<and> set (trace s) \<subseteq> set (trace s') \<and>
     isCurrentlyProcessing s' = isCurrentlyProcessing s \<and> current s' = current s"
  using assms
  by (auto simp: coord_inv_def unfolds wrote_def split: file_state.splits if_splits)

definition drained :: "server \<Rightarrow> server \<Rightarrow> bool" where
  "drained s s' \<longleftrightarrow>
     coord_inv s' \<and> quiet s' \<and> set (trace s) \<subseteq> set (trace s') \<and> callers s' = callers s"

lemma finallyBlock_inv:
  "coord_inv s \<Longrightarrow> pending s = NoRun \<Longrightarrow> drained s (finallyBlock e s)"
proof (induction e s rule: finallyBlock.induct)
  case (1 e s)
  let ?s1 = "s\<lparr>isCurrentlyProcessing := False, current := None\<rparr>"
  have i1: "coord_inv ?s1" using "1.prems" by (simp add: coord_inv_def currentResult_def)
  show ?case
  proof (cases "requestQueue s")
    case Nil
    then show ?thesis using i1 "1.prems"
      by (subst finallyBlock.simps) (simp add: drained_def quiet_def Let_def)
  next
    case (Cons w q)
    let ?s2 = "?s1\<lparr>requestQueue := q, isCurrentlyProcessing := True, current := Some (Queued w),
                    trace := trace s @ [Began w]\<rparr>"
    have b: "beginRun e (Queued w) (?s1\<lparr>requestQueue := q\<rparr>) = tryBlock e ?s2"
      by (simp add: beginRun_def)
    have i2: "coord_inv ?s2" "pending ?s2 = NoRun" "current ?s2 = Some (Queued w)"
      using "1.prems" Cons by (simp_all add: coord_inv_def currentResult_def)
    show ?thesis
    proof (cases "tryBlock e ?s2")
      case (Suspended s3)
      from tryBlock_Suspended[OF Suspended i2] Cons Suspended b show ?thesis
        by (subst finallyBlock.simps) (auto simp: drained_def quiet_def Let_def)
    next
      case (Completed s3)
      note t = tryBlock_Completed[OF Completed i2]
      have ih: "drained s3 (finallyBlock e s3)"
        using "1.IH"[OF refl _ _ ] Cons Completed b t by simp
      have f: "finallyBlock e s = (finallyBlock e s3)\<lparr>microtasks := microtasks (finallyBlock e s3) @ [w]\<rparr>"
        using Cons Completed b by (subst finallyBlock.simps) (simp add: Let_def)
      from ih t show ?thesis unfolding f
        by (auto simp: drained_def quiet_def coord_inv_def currentResult_def)
    qed
  qed
qed


definition stable :: "server \<Rightarrow> bool" where
  "stable s \<longleftrightarrow> coord_inv s \<and> quiet s \<and> microtasks s = []"

lemma fulfil_flush:
  assumes "drained s0 s1" "Wrote (ownerId w) \<in> set (trace s0)"
  shows "stable (flush (fulfil w s1))"
proof -
  from assms have w: "Wrote (ownerId w) \<in> set (trace s1)" by (auto simp: drained_def)
  from assms have c: "coord_inv s1" "quiet s1" by (auto simp: drained_def)
  have o: "ordered (trace (fulfil w s1) @ map Released (microtasks (fulfil w s1)))"
    using c(1) w
    by (intro ordered_flush) (cases w; auto simp: fulfil_def coord_inv_def ordered_released)+
  from c w o show ?thesis
    by (cases w) (auto simp: stable_def coord_inv_def quiet_def flush_def fulfil_def currentResult_def)
qed

lemma processPromptFile_stable:
  assumes "stable s"
  shows "stable (flush (processPromptFile e s))"
proof (cases "isCurrentlyProcessing s")
  case True
  with assms show ?thesis
    by (auto simp: processPromptFile_def stable_def coord_inv_def quiet_def flush_def Let_def currentResult_def)
next
  case False
  let ?s0 = "s\<lparr>callers := Suc (callers s), isCurrentlyProcessing := True,
               current := Some (Direct (callers s)), trace := trace s @ [Began (callers s)]\<rparr>"
  have b: "beginRun e (Direct (callers s)) (s\<lparr>callers := Suc (callers s)\<rparr>) = tryBlock e ?s0"
    by (simp add: beginRun_def)
  have i: "coord_inv ?s0" "pending ?s0 = NoRun" "current ?s0 = Some (Direct (callers s))"
    using assms False by (auto simp: stable_def coord_inv_def quiet_def currentResult_def)
  have m: "microtasks ?s0 = []" using assms by (simp add: stable_def)
  show ?thesis
  proof (cases "tryBlock e ?s0")
    case (Suspended s1)
    from tryBlock_Suspended[OF Suspended i] have "stable (flush s1)"
      using m Suspended
      by (auto simp: stable_def coord_inv_def quiet_def flush_def currentResult_def unfolds
               split: file_state.splits if_splits)
    with Suspended b False show ?thesis by (simp add: processPromptFile_def Let_def)
  next
    case (Completed s1)
    note t = tryBlock_Completed[OF Completed i]
    then have d: "drained s1 (finallyBlock e s1)" by (intro finallyBlock_inv) auto
    from t have "Wrote (ownerId (Direct (callers s))) \<in> set (trace s1)" by simp
    from fulfil_flush[OF d this] Completed b False show ?thesis
      by (simp add: processPromptFile_def Let_def)
  qed
qed

lemmas unfolds2 = executeClaudeAPICall_resume_def apiTryBody_def apiCatch_def storeResponse_def

lemma executeClaudeAPICall_resume_stable:
  assumes "stable s" "pending s = AwaitNetwork prompt"
  shows "stable (flush (executeClaudeAPICall_resume e prompt up s))"
proof -
  from assms obtain w where w: "current s = Some w" by (auto simp: stable_def quiet_def)
  with assms show ?thesis
    by (cases up)
       (auto simp: stable_def coord_inv_def quiet_def flush_def unfolds unfolds2 wrote_def
             split: prod.splits)
qed

lemma processPromptFile_resume_stable:
  assumes "stable s" "pending s = AwaitResume"
  shows "stable (flush (processPromptFile_resume e s))"
proof -
  from assms obtain w where w: "current s = Some w" "Wrote (ownerId w) \<in> set (trace s)"
    by (auto simp: stable_def coord_inv_def)
  let ?s0 = "s\<lparr>pending := NoRun\<rparr>"
  have "coord_inv ?s0" "pending ?s0 = NoRun" using assms
    by (auto simp: stable_def coord_inv_def currentResult_def)
  then have d: "drained ?s0 (finallyBlock e ?s0)" by (rule finallyBlock_inv)
  from fulfil_flush[OF d] w show ?thesis by (simp add: processPromptFile_resume_def)
qed

lemma step_stable: "stable s \<Longrightarrow> step ev s = Some s' \<Longrightarrow> stable s'"
  by (cases ev)
     (auto simp: processPromptFile_stable executeClaudeAPICall_resume_stable
                 processPromptFile_resume_stable split: suspension.splits)

lemma steps_stable: "stable s \<Longrightarrow> steps evs s = Some s' \<Longrightarrow> stable s'"
  by (induction evs arbitrary: s) (auto split: option.splits dest: step_stable)

lemma init_stable: "stable init"
  by (simp add: stable_def coord_inv_def quiet_def init_def currentResult_def initialResult_def)

definition inflight :: "server \<Rightarrow> nat" where
  "inflight s = length (posted s) - settled s"

fun is_trigger :: "event \<Rightarrow> bool" where
  "is_trigger (Trigger e) = True"
| "is_trigger ev = False"

definition backlog :: "server \<Rightarrow> nat" where
  "backlog s =
     2 * length (requestQueue s) +
     (case pending s of NoRun \<Rightarrow> 0 | AwaitResume \<Rightarrow> 1 | AwaitNetwork p \<Rightarrow> 2)"

definition demoEnv :: env where
  "demoEnv = \<lparr>promptFile = Present (js ''Tell a story.''), apiKey = Some (js ''sk-demo''),
     production = False, now = js ''2025-01-01T00:00:00.000Z'', nowLocal = js ''12/31/2024, 16:00:00'',
     random36 = js ''0.4fzyo82mvyr'', uniqueId = js ''1735689600000.4182'', randomNumber = 424242,
     logWritable = True\<rparr>"

lemma tryBlock_Completed_frame:
  assumes "tryBlock e s = Completed s'"
  shows "callers s' = callers s \<and> posted s' = posted s \<and> settled s' = settled s \<and>
         pending s' = pending s \<and> requestQueue s' = requestQueue s \<and>
         begun (trace s') = begun (trace s) \<and> microtasks s' = microtasks s"
  using assms by (auto simp: unfolds split: file_state.splits if_splits)

lemma tryBlock_Suspended_frame:
  assumes "tryBlock e s = Suspended s'"
  shows "callers s' = callers s \<and> settled s' = settled s \<and> requestQueue s' = requestQueue s \<and>
         begun (trace s') = begun (trace s) \<and> microtasks s' = microtasks s \<and>
         (pending s' = AwaitResume \<and> posted s' = posted s \<and> \<not> truthyStr (apiKey e) \<or>
          (\<exists>p. pending s' = AwaitNetwork p \<and> posted s' = posted s @ [p] \<and> truthyStr (apiKey e)))"
  using assms by (auto simp: unfolds split: file_state.splits if_splits)

lemma finallyBlock_frame:
  "pending s = NoRun \<Longrightarrow>
   callers (finallyBlock e s) = callers s \<and> settled (finallyBlock e s) = settled s \<and>
   backlog (finallyBlock e s) \<le> 2 * length (requestQueue s) \<and>
   (\<not> truthyStr (apiKey e) \<longrightarrow> posted (finallyBlock e s) = posted s)"
proof (induction e s rule: finallyBlock.induct)
  case (1 e s)
  let ?s1 = "s\<lparr>isCurrentlyProcessing := False, current := None\<rparr>"
  show ?case
  proof (cases "requestQueue s")
    case Nil
    then show ?thesis using "1.prems"
      by (subst (1 2 3 4) finallyBlock.simps) (simp add: Let_def backlog_def)
  next
    case (Cons w q)
    let ?s2 = "?s1\<lparr>requestQueue := q, isCurrentlyProcessing := True, current := Some (Queued w),
                    trace := trace s @ [Began w]\<rparr>"
    have b: "beginRun e (Queued w) (?s1\<lparr>requestQueue := q\<rparr>) = tryBlock e ?s2"
      by (simp add: beginRun_def)
    show ?thesis
    proof (cases "tryBlock e ?s2")
      case (Suspended s3)
      from tryBlock_Suspended_frame[OF Suspended] Cons Suspended b "1.prems" show ?thesis
        by (subst (1 2 3 4) finallyBlock.simps) (auto simp: Let_def backlog_def)
    next
      case (Completed s3)
      note t = tryBlock_Completed_frame[OF Completed]
      have ih: "callers (finallyBlock e s3) = callers s3 \<and> settled (finallyBlock e s3) = settled s3 \<and>
          backlog (finallyBlock e s3) \<le> 2 * length (requestQueue s3) \<and>
          (\<not> truthyStr (apiKey e) \<longrightarrow> posted (finallyBlock e s3) = posted s3)"
      proof (rule "1.IH"[OF refl])
        show "requestQueue ?s1 = w # q" using Cons by simp
        show "beginRun e (Queued w) (?s1\<lparr>requestQueue := q\<rparr>) = Completed s3"
          using b Completed by simp
        show "pending s3 = NoRun" using t "1.prems" by simp
      qed
      have f: "finallyBlock e s = (finallyBlock e s3)\<lparr>microtasks := microtasks (finallyBlock e s3) @ [w]\<rparr>"
        using Cons Completed b by (subst finallyBlock.simps) (simp add: Let_def)
      from ih t Cons show ?thesis unfolding f by (auto simp: backlog_def)
    qed
  qed
qed

lemma fulfil_flush_frame [simp]:
  "callers (flush (fulfil w s)) = callers s" "posted (flush (fulfil w s)) = posted s"
  "settled (flush (fulfil w s)) = settled s" "backlog (flush (fulfil w s)) = backlog s"
  by (cases w; simp add: flush_def fulfil_def backlog_def)+

lemma step_callers:
  assumes "stable s" "step ev s = Some s'"
  shows "callers s' = callers s + (if is_trigger ev then 1 else 0)"
proof (cases ev)
  case (Trigger e)
  show ?thesis
  proof (cases "isCurrentlyProcessing s")
    case True
    with assms Trigger show ?thesis by (auto simp: processPromptFile_def flush_def Let_def)
  next
    case False
    with assms have p: "pending s = NoRun" by (auto simp: stable_def quiet_def)
    let ?s0 = "s\<lparr>callers := Suc (callers s), isCurrentlyProcessing := True,
               current := Some (Direct (callers s)), trace := trace s @ [Began (callers s)]\<rparr>"
    have b: "beginRun e (Direct (callers s)) (s\<lparr>callers := Suc (callers s)\<rparr>) = tryBlock e ?s0"
      by (simp add: beginRun_def)
    show ?thesis
    proof (cases "tryBlock e ?s0")
      case (Suspended s1)
      from tryBlock_Suspended_frame[OF Suspended] assms Trigger False b Suspended show ?thesis
        by (auto simp: processPromptFile_def Let_def flush_def)
    next
      case (Completed s1)
      from tryBlock_Completed_frame[OF Completed] p have "pending s1 = NoRun" "callers s1 = Suc (callers s)"
        by auto
      with finallyBlock_frame[of s1 e] assms Trigger False b Completed show ?thesis
        by (auto simp: processPromptFile_def Let_def)
    qed
  qed
next
  case (NetworkDone e up)
  with assms show ?thesis
    by (cases up) (auto simp: flush_def unfolds unfolds2 split: suspension.splits prod.splits)
next
  case (Resume e)
  with assms finallyBlock_frame[of "s\<lparr>pending := NoRun\<rparr>" e] show ?thesis
    by (auto simp: processPromptFile_resume_def stable_def quiet_def split: suspension.splits option.splits)
qed

lemma steps_callers:
  "stable s \<Longrightarrow> steps evs s = Some s' \<Longrightarrow> callers s' = callers s + length (filter is_trigger evs)"
proof (induction evs arbitrary: s)
  case Nil
  then show ?case by simp
next
  case (Cons ev evs)
  then obtain s1 where s1: "step ev s = Some s1" "steps evs s1 = Some s'"
    by (auto split: option.splits)
  from step_stable[OF Cons.prems(1) s1(1)] have "stable s1" .
  from Cons.IH[OF this s1(2)] step_callers[OF Cons.prems(1) s1(1)] show ?case by simp
qed

lemma step_backlog:
  assumes "stable s" "step ev s = Some s'" "\<not> is_trigger ev"
  shows "backlog s' < backlog s"
proof (cases ev)
  case (Trigger e)
  with assms show ?thesis by simp
next
  case (NetworkDone e up)
  with assms show ?thesis
    by (cases up) (auto simp: flush_def backlog_def unfolds unfolds2 split: suspension.splits prod.splits)
next
  case (Resume e)
  with assms have p: "pending s = AwaitResume" by (auto split: suspension.splits)
  with assms obtain w where w: "current s = Some w" by (auto simp: stable_def quiet_def)
  from finallyBlock_frame[of "s\<lparr>pending := NoRun\<rparr>" e]
  have "backlog (finallyBlock e (s\<lparr>pending := NoRun\<rparr>)) \<le> 2 * length (requestQueue s)" by simp
  moreover have "backlog s = 2 * length (requestQueue s) + 1" using p by (simp add: backlog_def)
  ultimately show ?thesis using assms Resume p w by (auto simp: processPromptFile_resume_def)
qed

lemma upt_split:
  assumes "[0..<n] = b @ q"
  shows "b = [0..<length b] \<and> q = [length b..<n]"
proof -
  have "b = take (length b) [0..<n]" using assms by simp
  moreover have "q = drop (length b) [0..<n]" using assms by simp
  moreover have "length b \<le> n" using arg_cong[OF assms, of length] by simp
  ultimately show ?thesis by (simp add: take_upt)
qed

section \<open>Theorems\<close>

text \<open>
  C10. With no application key configured (\<open>APP_API_KEY\<close> unset, or set to the
  empty string), \<open>requireApiKey\<close> admits every request, so the refresh route
  reaches its handler whatever the request carries. A 401 is answered only when an
  expected key is configured and the provided key is missing or is not that key.
\<close>

theorem requireApiKey_open_when_unconfigured:
  "requireApiKey None req = Next \<and>
   refreshRoute None req h = Handled h \<and>
   (requireApiKey expectedKey req = Reject401 msg \<longrightarrow>
      (\<exists>k. expectedKey = Some k \<and> k \<noteq> [] \<and>
           (\<not> truthyKey (providedKey req) \<or> providedKey req \<noteq> Some (KeyString k))))"
  by (auto simp: requireApiKey_def refreshRoute_def truthyStr_def bufferFrom_def
           split: option.splits if_splits)

theorem requireApiKey_open_when_unconfigured_witness:
  "requireApiKey None \<lparr>headerApiKey = None, queryApiKey = None\<rparr> = Next \<and>
   refreshRoute None \<lparr>headerApiKey = None, queryApiKey = None\<rparr> True = Handled True \<and>
   requireApiKey (Some (js ''s3cret'')) \<lparr>headerApiKey = Some (js ''guess!''), queryApiKey = None\<rparr>
     = Reject401 (js ''Invalid API key'') \<and>
   (\<exists>k. Some (js ''s3cret'') = Some k \<and> k \<noteq> [] \<and>
      (\<not> truthyKey (providedKey \<lparr>headerApiKey = Some (js ''guess!''), queryApiKey = None\<rparr>) \<or>
       providedKey \<lparr>headerApiKey = Some (js ''guess!''), queryApiKey = None\<rparr> \<noteq> Some (KeyString k)))"
proof -
  have r: "requireApiKey (Some (js ''s3cret'')) \<lparr>headerApiKey = Some (js ''guess!''), queryApiKey = None\<rparr>
     = Reject401 (js ''Invalid API key'')"
    by (simp add: requireApiKey_def truthyStr_def truthyKey_def providedKey_def bufferFrom_def js_def)
  from requireApiKey_open_when_unconfigured
    [of "\<lparr>headerApiKey = Some (js ''guess!''), queryApiKey = None\<rparr>" True "Some (js ''s3cret'')"
        "js ''Invalid API key''"] r
  have "\<exists>k. Some (js ''s3cret'') = Some k \<and> k \<noteq> [] \<and>
      (\<not> truthyKey (providedKey \<lparr>headerApiKey = Some (js ''guess!''), queryApiKey = None\<rparr>) \<or>
       providedKey \<lparr>headerApiKey = Some (js ''guess!''), queryApiKey = None\<rparr> \<noteq> Some (KeyString k))"
    by blast
  with r requireApiKey_open_when_unconfigured
    [of "\<lparr>headerApiKey = None, queryApiKey = None\<rparr>" True None "[]"]
  show ?thesis by blast
qed


end
